theory Spec2Isabelle
  imports Main "HOL-Library.AList"
begin

section \<open>Faults raised by the bus helpers\<close>

text \<open>
  The exception classes named in the catch clauses of the binding functors:
  \<^verbatim>\<open>sdbusplus::exception::SdBusError\<close>, \<^verbatim>\<open>util::DBusError\<close> and
  \<^verbatim>\<open>util::DBusMethodError\<close>.  Any other exception is \<open>OtherException\<close>; no
  catch clause of the functors names it, so it always propagates.  A
  \<^verbatim>\<open>util::DBusMethodError\<close> is a kind of \<^verbatim>\<open>util::DBusError\<close>, so the clause
  \<^verbatim>\<open>catch (const util::DBusError&)\<close> takes both.
\<close>

datatype fault = SdBusError | DBusError | DBusMethodError | OtherException

fun is_DBusError :: "fault \<Rightarrow> bool" where
  "is_DBusError DBusError = True"
| "is_DBusError DBusMethodError = True"
| "is_DBusError SdBusError = False"
| "is_DBusError OtherException = False"

text \<open>The pair of clauses \<^verbatim>\<open>catch (SdBusError&) {} catch (util::DBusError&) {}\<close>.\<close>

fun caught_bus_error :: "fault \<Rightarrow> bool" where
  "caught_bus_error SdBusError = True"
| "caught_bus_error f = is_DBusError f"


section \<open>Messages\<close>

text \<open>
  A variant as it travels on the bus either holds a value of the type \<open>T\<close> the binding
  was instantiated with, or a value of some other bus type.
\<close>

datatype 't wire = Typed 't | Foreign

text \<open>
  \<^verbatim>\<open>msg.read\<close> belongs to the bus library, not to this repository.  Reading a wire variant
  into a \<^verbatim>\<open>variant<T>\<close> either raises or leaves a \<open>T\<close> in the variant; what it does for a
  value of another type is the parameter \<open>mm\<close>: \<open>Inl f\<close> when the reader raises \<open>f\<close>,
  \<open>Inr d\<close> when it stores the value \<open>d\<close> (a default-constructed \<open>T\<close>, say).
\<close>

definition read_variant :: "fault + 't \<Rightarrow> 't wire \<Rightarrow> fault + 't" where
  "read_variant mm w = (case w of Typed v \<Rightarrow> Inr v | Foreign \<Rightarrow> mm)"

text \<open>The value the reader leaves for a wire variant, if it leaves one.\<close>

definition variant_value :: "fault + 't \<Rightarrow> 't wire \<Rightarrow> 't option" where
  "variant_value mm w = (case read_variant mm w of Inr v \<Rightarrow> Some v | Inl f \<Rightarrow> None)"

text \<open>
  Reading a dictionary into a \<^verbatim>\<open>std::map<std::string, variant<T>>\<close>: the entries are read
  one after the other and emplaced, so the first entry of a key is the one kept.
\<close>

fun read_properties :: "fault + 't \<Rightarrow> (string \<times> 't wire) list \<Rightarrow> fault + (string \<rightharpoonup> 't)" where
  "read_properties mm [] = Inr Map.empty"
| "read_properties mm ((k, w) # kvs) =
     (case read_variant mm w of
        Inl f \<Rightarrow> Inl f
      | Inr v \<Rightarrow>
          (case read_properties mm kvs of
             Inl f \<Rightarrow> Inl f
           | Inr m \<Rightarrow> Inr (m(k \<mapsto> v))))"

text \<open>The nested dictionary of an InterfacesAdded signal, interface to (property to value).\<close>

fun read_intfProp ::
  "fault + 't \<Rightarrow> (string \<times> (string \<times> 't wire) list) list \<Rightarrow> fault + (string \<rightharpoonup> (string \<rightharpoonup> 't))"
where
  "read_intfProp mm [] = Inr Map.empty"
| "read_intfProp mm ((i, kvs) # rest) =
     (case read_properties mm kvs of
        Inl f \<Rightarrow> Inl f
      | Inr props \<Rightarrow>
          (case read_intfProp mm rest of
             Inl f \<Rightarrow> Inl f
           | Inr m \<Rightarrow> Inr (m(i \<mapsto> props))))"

text \<open>The payloads of the four signals, in the order the functors read them.\<close>

record 't PropertiesChanged =
  pc_iface :: string
  pc_properties :: "(string \<times> 't wire) list"

record 't InterfacesAdded =
  ia_op :: string
  ia_intfProp :: "(string \<times> (string \<times> 't wire) list) list"

record InterfacesRemoved =
  ir_op :: string
  ir_intfs :: "string list"

record NameOwnerChanged =
  noc_name :: string
  noc_oldOwn :: string
  noc_newOwn :: string

section \<open>What a functor can change\<close>

text \<open>
  A functor is handed the zone; everything it does to it goes through the handler, a
  function from the zone and the arguments to the new zone.  The only other effect is
  the error written to the journal.  A message argument is \<open>None\<close> when the
  \<^verbatim>\<open>sdbusplus::message\<close> is null (\<^verbatim>\<open>if (msg)\<close> fails).
\<close>

datatype journal_entry = ERR string string string string

record 'z ctx =
  zone :: 'z
  journal :: "journal_entry list"

type_synonym member = "string \<times> string \<times> string"

section \<open>struct Properties\<close>

record ('t, 'z) Properties =
  p_path :: string
  p_iface :: string
  p_property :: string
  p_handler :: "'z \<Rightarrow> 't \<Rightarrow> 'z"

text \<open>\<^verbatim>\<open>explicit Properties(U&& handler)\<close>: the three filters are the empty string.\<close>

definition Properties_handler :: "('z \<Rightarrow> 't \<Rightarrow> 'z) \<Rightarrow> ('t, 'z) Properties" where
  "Properties_handler h = \<lparr>p_path = '''', p_iface = '''', p_property = '''', p_handler = h\<rparr>"

text \<open>
  \<^verbatim>\<open>operator()(bus, msg, zone)\<close>.  \<open>getPropertyByName\<close> is the zone's synchronous read,
  \<^verbatim>\<open>zone.getPropertyByName<T>(path, iface, property)\<close>.  The message branch has no
  \<^verbatim>\<open>try\<close>: a fault of \<^verbatim>\<open>msg.read\<close> leaves the functor.
\<close>

definition Properties_signal ::
  "fault + 't \<Rightarrow> ('z \<Rightarrow> string \<Rightarrow> string \<Rightarrow> string \<Rightarrow> fault + 't) \<Rightarrow> ('t, 'z) Properties \<Rightarrow>
   't PropertiesChanged option \<Rightarrow> 'z ctx \<Rightarrow> fault + 'z ctx"
where
  "Properties_signal mm getPropertyByName b msg c =
     (case msg of
        Some m \<Rightarrow>
          if pc_iface m \<noteq> p_iface b then Inr c
          else
            (case read_properties mm (pc_properties m) of
               Inl f \<Rightarrow> Inl f
             | Inr properties \<Rightarrow>
                 (case properties (p_property b) of
                    None \<Rightarrow>
                      Inr (c\<lparr>journal := journal c @
                        [ERR ''Unable to find property on interface''
                           (p_property b) (p_iface b) (p_path b)]\<rparr>)
                  | Some v \<Rightarrow> Inr (c\<lparr>zone := p_handler b (zone c) v\<rparr>)))
      | None \<Rightarrow>
          (case getPropertyByName (zone c) (p_path b) (p_iface b) (p_property b) of
             Inr val \<Rightarrow> Inr (c\<lparr>zone := p_handler b (zone c) val\<rparr>)
           | Inl f \<Rightarrow> if caught_bus_error f then Inr c else Inl f))"

text \<open>
  \<^verbatim>\<open>operator()(zone, group)\<close>: \<^verbatim>\<open>std::for_each\<close> over the members, each a tuple of
  path, interface and property; the filters of the functor are not used.
\<close>

fun Properties_init ::
  "('z \<Rightarrow> string \<Rightarrow> string \<Rightarrow> string \<Rightarrow> fault + 't) \<Rightarrow> ('t, 'z) Properties \<Rightarrow>
   member list \<Rightarrow> 'z ctx \<Rightarrow> fault + 'z ctx"
where
  "Properties_init getPropertyByName b [] c = Inr c"
| "Properties_init getPropertyByName b ((path, intf, prop) # members) c =
     (case getPropertyByName (zone c) path intf prop of
        Inr val \<Rightarrow>
          Properties_init getPropertyByName b members (c\<lparr>zone := p_handler b (zone c) val\<rparr>)
      | Inl f \<Rightarrow>
          if caught_bus_error f then Properties_init getPropertyByName b members c
          else Inl f)"

section \<open>struct InterfaceAdded\<close>

record ('t, 'z) InterfaceAdded =
  a_path :: string
  a_iface :: string
  a_property :: string
  a_handler :: "'z \<Rightarrow> 't \<Rightarrow> 'z"

text \<open>\<^verbatim>\<open>operator()(bus, msg, zone)\<close>; there is no branch for a null message.\<close>

definition InterfaceAdded_signal ::
  "fault + 't \<Rightarrow> ('t, 'z) InterfaceAdded \<Rightarrow> 't InterfacesAdded option \<Rightarrow> 'z ctx \<Rightarrow> fault + 'z ctx"
where
  "InterfaceAdded_signal mm b msg c =
     (case msg of
        Some m \<Rightarrow>
          if ia_op m \<noteq> a_path b then Inr c
          else
            (case read_intfProp mm (ia_intfProp m) of
               Inl f \<Rightarrow> Inl f
             | Inr intfProp \<Rightarrow>
                 (case intfProp (a_iface b) of
                    None \<Rightarrow> Inr c
                  | Some props \<Rightarrow>
                      (case props (a_property b) of
                         None \<Rightarrow> Inr c
                       | Some v \<Rightarrow> Inr (c\<lparr>zone := a_handler b (zone c) v\<rparr>))))
      | None \<Rightarrow> Inr c)"

section \<open>struct InterfaceRemoved\<close>

record 'z InterfaceRemoved =
  r_path :: string
  r_iface :: string
  r_handler :: "'z \<Rightarrow> 'z"

text \<open>
  \<^verbatim>\<open>operator()(bus, msg, zone)\<close>.  The payload is an object path and a list of plain
  strings, so nothing depends on the value type.
\<close>

definition InterfaceRemoved_signal ::
  "'z InterfaceRemoved \<Rightarrow> InterfacesRemoved option \<Rightarrow> 'z ctx \<Rightarrow> fault + 'z ctx"
where
  "InterfaceRemoved_signal b msg c =
     (case msg of
        Some m \<Rightarrow>
          if ir_op m \<noteq> r_path b then Inr c
          else if r_iface b \<notin> set (ir_intfs m) then Inr c
          else Inr (c\<lparr>zone := r_handler b (zone c)\<rparr>)
      | None \<Rightarrow> Inr c)"

section \<open>struct NameOwner\<close>

record 'z NameOwner =
  n_handler :: "'z \<Rightarrow> string \<Rightarrow> bool \<Rightarrow> 'z"

text \<open>\<^verbatim>\<open>operator()(bus, msg, zone)\<close>: the NameOwnerChanged signal.\<close>

definition NameOwner_signal ::
  "'z NameOwner \<Rightarrow> NameOwnerChanged option \<Rightarrow> 'z ctx \<Rightarrow> fault + 'z ctx"
where
  "NameOwner_signal b msg c =
     (case msg of
        Some m \<Rightarrow>
          Inr (c\<lparr>zone := n_handler b (zone c) (noc_name m) (noc_newOwn m \<noteq> [])\<rparr>)
      | None \<Rightarrow> Inr c)"




section \<open>The enumerations as the specification words them\<close>

text \<open>
  Group enumeration of the property functor: read the member; when the property is
  unavailable skip the member, otherwise call the handler with the value.
\<close>

fun read_or_skip ::
  "('z \<Rightarrow> string \<Rightarrow> string \<Rightarrow> string \<Rightarrow> fault + 't) \<Rightarrow> ('z \<Rightarrow> 't \<Rightarrow> 'z) \<Rightarrow> 'z ctx \<Rightarrow> member \<Rightarrow> 'z ctx"
where
  "read_or_skip rd h c (path, intf, prop) =
     (case rd (zone c) path intf prop of
        Inr v \<Rightarrow> c\<lparr>zone := h (zone c) v\<rparr>
      | Inl f \<Rightarrow> c)"


section \<open>class ShutdownAlarmMonitor\<close>

text \<open>
  Of the monitor only the class declaration is among the sources.  It gives the state,
  the map \<^verbatim>\<open>alarms\<close> from an alarm key to a timer pointer that may be null, and the names
  of the member functions; their bodies, the key type and the timer callback are not
  there and are written down here from the specification.  The map is kept as an
  association list with one entry per key, walked in list order.
\<close>

text \<open>
  Modelled from the spec: the alarm key, whose type is declared in types.hpp, which is not
  among the sources.  It is the object path, the alarm class and the direction.
\<close>

datatype alarm_class = Soft | Hard

datatype direction = Low | High

type_synonym AlarmKey = "string \<times> alarm_class \<times> direction"

text \<open>
  Modelled from the spec: what the timer holds (the key it escalates and the delay it was
  armed with), the two configured delays, and the three records of the event log.
\<close>

record Timer =
  t_key :: AlarmKey
  t_delay :: nat

record delays =
  soft_delay :: nat
  hard_delay :: nat

datatype event_log = Asserted AlarmKey | Cleared AlarmKey | Expired AlarmKey

text \<open>
  \<open>powerOn\<close> is what the power state provider currently reports.  \<open>shutdowns\<close> lists the
  shutdown actions issued.  \<open>lastValue\<close> is book-keeping for the invariant only: the
  value most recently handed to \<open>checkAlarm\<close> for a key; no operation reads it.
\<close>

record ShutdownAlarmMonitor =
  alarms :: "(AlarmKey \<times> Timer option) list"
  powerOn :: bool
  eventLog :: "event_log list"
  shutdowns :: "AlarmKey list"
  lastValue :: "AlarmKey \<rightharpoonup> bool"

definition hasTimer :: "ShutdownAlarmMonitor \<Rightarrow> AlarmKey \<Rightarrow> bool" where
  "hasTimer s k = (case map_of (alarms s) k of Some (Some t) \<Rightarrow> True | _ \<Rightarrow> False)"

text \<open>
  Modelled from the spec: the delay a timer is armed with (the header only says the
  values are build options).  Soft-class and hard-class alarms use independently
  configured durations.
\<close>

definition class_delay :: "delays \<Rightarrow> AlarmKey \<Rightarrow> nat" where
  "class_delay cfg k = (case fst (snd k) of Soft \<Rightarrow> soft_delay cfg | Hard \<Rightarrow> hard_delay cfg)"

text \<open>
  Modelled from the spec: the body of \<^verbatim>\<open>checkAlarm(value, alarmKey)\<close>, which is not among
  the sources.  If the value is true, power is on and the key has no timer, create and arm
  a timer with the class-specific delay and log "asserted".  If the value is false and the
  key has a timer, cancel and remove it and log "cleared".  Every other combination is a
  no-op.
\<close>

definition checkAlarm :: "delays \<Rightarrow> bool \<Rightarrow> AlarmKey \<Rightarrow> ShutdownAlarmMonitor \<Rightarrow> ShutdownAlarmMonitor" where
  "checkAlarm cfg value k s =
     (let s' = s\<lparr>lastValue := (lastValue s)(k \<mapsto> value)\<rparr> in
      if value \<and> powerOn s \<and> \<not> hasTimer s k then
        s'\<lparr>alarms := AList.update k (Some \<lparr>t_key = k, t_delay = class_delay cfg k\<rparr>) (alarms s),
            eventLog := eventLog s @ [Asserted k]\<rparr>
      else if \<not> value \<and> hasTimer s k then
        s'\<lparr>alarms := AList.update k None (alarms s),
            eventLog := eventLog s @ [Cleared k]\<rparr>
      else s')"

text \<open>
  Modelled from the spec: the body of \<^verbatim>\<open>checkAlarms()\<close>.  For every known key, re-read
  the current value and call \<open>checkAlarm\<close>; a key whose read fails (\<open>rd k = None\<close>) is
  skipped.
\<close>

definition checkAlarms :: "delays \<Rightarrow> (AlarmKey \<Rightarrow> bool option) \<Rightarrow> ShutdownAlarmMonitor \<Rightarrow> ShutdownAlarmMonitor" where
  "checkAlarms cfg rd s =
     fold (\<lambda>k s. case rd k of Some v \<Rightarrow> checkAlarm cfg v k s | None \<Rightarrow> s) (map fst (alarms s)) s"

text \<open>
  Modelled from the spec: the body of \<^verbatim>\<open>findAlarms()\<close>.  Each alarm key found on the bus
  is inserted with no timer.
\<close>

definition findAlarms :: "AlarmKey list \<Rightarrow> ShutdownAlarmMonitor \<Rightarrow> ShutdownAlarmMonitor" where
  "findAlarms keys s = s\<lparr>alarms := fold (\<lambda>k al. AList.update k None al) keys (alarms s)\<rparr>"

text \<open>
  Modelled from the spec: the constructor.  Discovery happens once, at startup, on an
  empty map; \<open>p\<close> is the power state at that moment.
\<close>

definition startup :: "AlarmKey list \<Rightarrow> bool \<Rightarrow> ShutdownAlarmMonitor" where
  "startup keys p =
     findAlarms keys
       \<lparr>alarms = [], powerOn = p, eventLog = [], shutdowns = [], lastValue = Map.empty\<rparr>"

text \<open>
  Modelled from the spec: the body of \<^verbatim>\<open>powerStateChanged(powerStateOn)\<close>.  When power
  comes on, re-check every alarm; when it goes off, cancel every running timer, with no
  "cleared" log.
\<close>

definition powerStateChanged ::
  "delays \<Rightarrow> bool \<Rightarrow> (AlarmKey \<Rightarrow> bool option) \<Rightarrow> ShutdownAlarmMonitor \<Rightarrow> ShutdownAlarmMonitor"
where
  "powerStateChanged cfg powerStateOn rd s =
     (if powerStateOn then checkAlarms cfg rd (s\<lparr>powerOn := True\<rparr>)
      else s\<lparr>powerOn := False, alarms := map (\<lambda>(k, t). (k, None)) (alarms s)\<rparr>)"

text \<open>
  Modelled from the spec: the timer expiry callback.  It issues the shutdown action once,
  logs "expired" and removes the timer from the map.  A timer that was cancelled never
  fires, so without a timer for the key nothing happens.
\<close>

definition timerExpired :: "AlarmKey \<Rightarrow> ShutdownAlarmMonitor \<Rightarrow> ShutdownAlarmMonitor" where
  "timerExpired k s =
     (if hasTimer s k then
        s\<lparr>alarms := AList.update k None (alarms s),
          eventLog := eventLog s @ [Expired k],
          shutdowns := shutdowns s @ [k]\<rparr>
      else s)"

text \<open>
  The events the event loop delivers to the monitor after startup.  A power-on carries
  the outcome of the re-reads it triggers.
\<close>

datatype event =
    CheckAlarm bool AlarmKey
  | PowerStateChanged bool "AlarmKey \<Rightarrow> bool option"
  | TimerExpired AlarmKey

fun deliver :: "delays \<Rightarrow> ShutdownAlarmMonitor \<Rightarrow> event \<Rightarrow> ShutdownAlarmMonitor" where
  "deliver cfg s (CheckAlarm v k) = checkAlarm cfg v k s"
| "deliver cfg s (PowerStateChanged on rd) = powerStateChanged cfg on rd s"
| "deliver cfg s (TimerExpired k) = timerExpired k s"

definition run :: "delays \<Rightarrow> event list \<Rightarrow> ShutdownAlarmMonitor \<Rightarrow> ShutdownAlarmMonitor" where
  "run cfg evs s = foldl (deliver cfg) s evs"

text \<open>Event sequences in which no timer fires and every re-read on power-on succeeds.\<close>

fun undisturbed :: "event \<Rightarrow> bool" where
  "undisturbed (CheckAlarm v k) = True"
| "undisturbed (PowerStateChanged on rd) = (on \<longrightarrow> (\<forall>k. rd k \<noteq> None))"
| "undisturbed (TimerExpired k) = False"

text \<open>Event sequences during which power does not come back on.\<close>

fun keeps_power_off :: "event \<Rightarrow> bool" where
  "keeps_power_off (PowerStateChanged on rd) = (\<not> on)"
| "keeps_power_off e = True"

text \<open>
  The invariants of the monitor.  \<open>safe\<close>: a timer runs only for an alarm whose last known
  value is tripped, and only with power on.  \<open>exact\<close>: for the keys of the map, a timer
  runs exactly then.  \<open>dark\<close>: power is off and no timer runs.
\<close>

definition safe :: "ShutdownAlarmMonitor \<Rightarrow> bool" where
  "safe s = (\<forall>k. hasTimer s k \<longrightarrow> lastValue s k = Some True \<and> powerOn s)"

definition exact :: "ShutdownAlarmMonitor \<Rightarrow> bool" where
  "exact s =
     (\<forall>k \<in> fst ` set (alarms s). hasTimer s k \<longleftrightarrow> lastValue s k = Some True \<and> powerOn s)"

definition dark :: "ShutdownAlarmMonitor \<Rightarrow> bool" where
  "dark s = (\<not> powerOn s \<and> (\<forall>k. \<not> hasTimer s k))"

text \<open>
  \<open>agrees\<close>: for one key, a timer runs exactly when the last known value is tripped and
  power is on.
\<close>

definition agrees :: "ShutdownAlarmMonitor \<Rightarrow> AlarmKey \<Rightarrow> bool" where
  "agrees s k = (hasTimer s k \<longleftrightarrow> lastValue s k = Some True \<and> powerOn s)"

text \<open>
  What one event, delivered in state \<open>s\<close>, does to a key.  A key is settled by a
  \<open>checkAlarm\<close> call for it, by a power-off, and by a power-on that re-reads it (it is in
  the map and its read succeeds).  A key is unsettled when its running timer fires, and
  when power comes on without re-reading it while its last known value is tripped and it
  has no timer.  Any other event leaves the key as it was.  \<open>settled\<close> follows a key
  through an event sequence, \<open>b\<close> being how it starts.
\<close>

fun settles :: "ShutdownAlarmMonitor \<Rightarrow> event \<Rightarrow> AlarmKey \<Rightarrow> bool" where
  "settles s (CheckAlarm v k') k = (k' = k)"
| "settles s (PowerStateChanged on rd) k =
     (\<not> on \<or> (rd k \<noteq> None \<and> k \<in> fst ` set (alarms s)))"
| "settles s (TimerExpired k') k = False"

fun unsettles :: "ShutdownAlarmMonitor \<Rightarrow> event \<Rightarrow> AlarmKey \<Rightarrow> bool" where
  "unsettles s (CheckAlarm v k') k = False"
| "unsettles s (PowerStateChanged on rd) k =
     (on \<and> (rd k = None \<or> k \<notin> fst ` set (alarms s)) \<and>
      \<not> hasTimer s k \<and> lastValue s k = Some True)"
| "unsettles s (TimerExpired k') k = (k' = k \<and> hasTimer s k)"

fun settled :: "delays \<Rightarrow> AlarmKey \<Rightarrow> event list \<Rightarrow> ShutdownAlarmMonitor \<Rightarrow> bool \<Rightarrow> bool" where
  "settled cfg k [] s b = b"
| "settled cfg k (e # es) s b =
     settled cfg k es (deliver cfg s e)
       (if settles s e k then True else if unsettles s e k then False else b)"

text \<open>
  A condition on the events alone under which a key is settled at the end: the last event
  that was a \<open>checkAlarm\<close> call for the key, a power-off or a power-on reading the key is
  followed by no expiry of the key's timer and no power-on that fails to read the key.
\<close>

fun steady_step :: "AlarmKey \<Rightarrow> bool \<Rightarrow> event \<Rightarrow> bool" where
  "steady_step k b (CheckAlarm v k') = (k' = k \<or> b)"
| "steady_step k b (PowerStateChanged on rd) = (\<not> on \<or> rd k \<noteq> None)"
| "steady_step k b (TimerExpired k') = (k' \<noteq> k \<and> b)"

definition steady :: "AlarmKey \<Rightarrow> event list \<Rightarrow> bool" where
  "steady k evs = foldl (steady_step k) True evs"

text \<open>A handler that records the values it is called with, for concrete runs.\<close>

definition note_value :: "'t list \<Rightarrow> 't \<Rightarrow> 't list" where
  "note_value z v = z @ [v]"

section \<open>Properties: live delivery\<close>

lemma read_properties_typed:
  "read_properties mm (map (\<lambda>(k, v). (k, Typed v)) kvs) = Inr (map_of kvs)"
  by (induction kvs) (auto simp: read_variant_def fun_eq_iff)

lemma read_properties_entries:
  "read_properties mm kvs = Inr properties \<Longrightarrow>
     properties k = Option.bind (map_of kvs k) (variant_value mm)"
  by (induction kvs arbitrary: properties)
     (auto simp: variant_value_def split: sum.splits)

text \<open>
  C4.  On a live PropertiesChanged message the functor does nothing when the message's
  interface differs from the filter interface, whatever else the message holds: it
  returns before the properties are read.  When the interface matches and the read
  returns the mapping \<open>properties\<close>, the entry under the filter property is the value of
  the first entry of that name in the message; the functor calls the handler with it, and
  when the property is absent it writes one error to the journal and does not call the
  handler.  A message whose values all have the expected type is always read, and its
  mapping is the one it carries.
\<close>

theorem Properties_signal_live:
  "(pc_iface m \<noteq> p_iface b \<longrightarrow> Properties_signal mm gp b (Some m) c = Inr c) \<and>
   (pc_iface m = p_iface b \<and> read_properties mm (pc_properties m) = Inr properties \<longrightarrow>
      properties (p_property b) =
        Option.bind (map_of (pc_properties m) (p_property b)) (variant_value mm) \<and>
      Properties_signal mm gp b (Some m) c =
        Inr (case properties (p_property b) of
               Some v \<Rightarrow> c\<lparr>zone := p_handler b (zone c) v\<rparr>
             | None \<Rightarrow> c\<lparr>journal := journal c @
                 [ERR ''Unable to find property on interface''
                    (p_property b) (p_iface b) (p_path b)]\<rparr>)) \<and>
   Properties_signal mm gp b
       (Some \<lparr>pc_iface = i, pc_properties = map (\<lambda>(k, v). (k, Typed v)) kvs\<rparr>) c =
     Inr (if i = p_iface b
          then (case map_of kvs (p_property b) of
                  Some v \<Rightarrow> c\<lparr>zone := p_handler b (zone c) v\<rparr>
                | None \<Rightarrow> c\<lparr>journal := journal c @
                    [ERR ''Unable to find property on interface''
                       (p_property b) (p_iface b) (p_path b)]\<rparr>)
          else c)"
  by (auto simp: Properties_signal_def read_properties_typed read_properties_entries
      split: option.split)

theorem Properties_signal_live_witness:
  "read_properties (Inl SdBusError) [(''Value'', Typed True)] = Inr [''Value'' \<mapsto> True] \<and>
   Properties_signal (Inl SdBusError) (\<lambda>z p i q. Inl OtherException)
     \<lparr>p_path = ''/s'', p_iface = ''I'', p_property = ''Value'', p_handler = note_value\<rparr>
     (Some \<lparr>pc_iface = ''I'', pc_properties = [(''Value'', Typed True)]\<rparr>)
     \<lparr>zone = [], journal = []\<rparr>
   = Inr \<lparr>zone = [True], journal = []\<rparr> \<and>
   Properties_signal (Inl SdBusError) (\<lambda>z p i q. Inl OtherException)
     \<lparr>p_path = ''/s'', p_iface = ''J'', p_property = ''Value'', p_handler = note_value\<rparr>
     (Some \<lparr>pc_iface = ''I'', pc_properties = [(''Value'', Foreign :: bool wire)]\<rparr>)
     \<lparr>zone = [], journal = []\<rparr>
   = Inr \<lparr>zone = [], journal = []\<rparr>"
proof -
  have h: "read_properties (Inl SdBusError) [(''Value'', Typed True)] = Inr [''Value'' \<mapsto> True]"
    by (simp add: read_variant_def)
  show ?thesis
    using h
      Properties_signal_live [where mm = "Inl SdBusError"
        and m = "\<lparr>pc_iface = ''I'', pc_properties = [(''Value'', Typed True)]\<rparr>"
        and properties = "[''Value'' \<mapsto> True]" and gp = "\<lambda>z p i q. Inl OtherException"
        and b = "\<lparr>p_path = ''/s'', p_iface = ''I'', p_property = ''Value'', p_handler = note_value\<rparr>"
        and c = "\<lparr>zone = [], journal = []\<rparr>" and i = "[]" and kvs = "[]"]
      Properties_signal_live [where mm = "Inl SdBusError"
        and m = "\<lparr>pc_iface = ''I'', pc_properties = [(''Value'', Foreign :: bool wire)]\<rparr>"
        and gp = "\<lambda>z p i q. Inl OtherException"
        and b = "\<lparr>p_path = ''/s'', p_iface = ''J'', p_property = ''Value'', p_handler = note_value\<rparr>"
        and c = "\<lparr>zone = [], journal = []\<rparr>" and properties = Map.empty
        and i = "[]" and kvs = "[]"]
    by (simp add: note_value_def read_variant_def variant_value_def)
qed

section \<open>Properties: a value of another type\<close>

lemma read_properties_raises:
  "(k, Foreign) \<in> set kvs \<Longrightarrow> read_properties (Inl f) kvs = Inl f"
  by (induction kvs) (auto simp: read_variant_def split: wire.splits sum.splits)

lemma read_properties_stores:
  "read_properties (Inr d) kvs =
     Inr (\<lambda>k. map_option (\<lambda>w. case w of Typed v \<Rightarrow> v | Foreign \<Rightarrow> d) (map_of kvs k))"
  by (induction kvs) (auto simp: read_variant_def fun_eq_iff split: wire.splits sum.splits)

text \<open>
  C5 as the specification states it: a filtered property of another type is reported as a
  decode fault, the handler is not called and no fault escapes.  The message branch has
  neither a type check nor a \<^verbatim>\<open>try\<close>.  With a reader that raises, the fault leaves the
  functor and the journal stays empty; with a reader that stores a value (here \<open>False\<close>)
  the handler is called with it.
\<close>

theorem Properties_signal_mismatch_counterexample:
  "Properties_signal (Inl SdBusError) (\<lambda>z p i q. Inl OtherException)
     \<lparr>p_path = ''/s'', p_iface = ''I'', p_property = ''Value'', p_handler = note_value\<rparr>
     (Some \<lparr>pc_iface = ''I'', pc_properties = [(''Value'', Foreign)]\<rparr>)
     \<lparr>zone = [], journal = []\<rparr>
   = Inl SdBusError \<and>
   Properties_signal (Inr False) (\<lambda>z p i q. Inl OtherException)
     \<lparr>p_path = ''/s'', p_iface = ''I'', p_property = ''Value'', p_handler = note_value\<rparr>
     (Some \<lparr>pc_iface = ''I'', pc_properties = [(''Value'', Foreign)]\<rparr>)
     \<lparr>zone = [], journal = []\<rparr>
   = Inr \<lparr>zone = [False], journal = []\<rparr>"
  by (simp add: Properties_signal_def read_variant_def note_value_def)

text \<open>
  C5, amended.  For a live message whose interface matches and whose filtered property
  holds a value of another type, the functor adds nothing of its own to what the bus
  reader does: when the reader raises, the fault leaves the functor, the handler is not
  called and nothing is logged; when the reader stores a value of type \<open>T\<close>, the handler
  is called with that value.
\<close>

theorem Properties_signal_mismatch:
  assumes "pc_iface m = p_iface b"
    and "map_of (pc_properties m) (p_property b) = Some Foreign"
  shows "Properties_signal mm gp b (Some m) c =
     (case mm of Inl f \<Rightarrow> Inl f | Inr d \<Rightarrow> Inr (c\<lparr>zone := p_handler b (zone c) d\<rparr>))"
proof (cases mm)
  case (Inl f)
  from assms(2) have "(p_property b, Foreign) \<in> set (pc_properties m)"
    by (rule map_of_SomeD)
  then have "read_properties (Inl f) (pc_properties m) = Inl f"
    by (rule read_properties_raises)
  with Inl assms(1) show ?thesis
    by (simp add: Properties_signal_def)
next
  case (Inr d)
  with assms show ?thesis
    by (simp add: Properties_signal_def read_properties_stores)
qed

theorem Properties_signal_mismatch_witness:
  "Properties_signal (Inr (0::nat)) (\<lambda>z p i q. Inl OtherException)
     \<lparr>p_path = ''/s'', p_iface = ''I'', p_property = ''Value'', p_handler = note_value\<rparr>
     (Some \<lparr>pc_iface = ''I'', pc_properties = [(''Other'', Typed 7), (''Value'', Foreign)]\<rparr>)
     \<lparr>zone = [], journal = []\<rparr>
   = Inr \<lparr>zone = [0], journal = []\<rparr>"
  using Properties_signal_mismatch [of
      "\<lparr>pc_iface = ''I'', pc_properties = [(''Other'', Typed 7), (''Value'', Foreign)]\<rparr>"
      "\<lparr>p_path = ''/s'', p_iface = ''I'', p_property = ''Value'', p_handler = note_value\<rparr>"
      "Inr (0::nat)" "\<lambda>z p i q. Inl OtherException" "\<lparr>zone = [], journal = []\<rparr>"]
  by (simp add: note_value_def)

section \<open>Properties: group enumeration\<close>

text \<open>
  C6.  The group entry point reads each member in order.  When every failing read fails
  with one of the bus faults the catch clauses name, the enumeration always runs to the
  end, and its result is that of going through the members one by one, calling the handler
  with the value of each read that succeeds and leaving the zone as it is for each read
  that fails.
\<close>

theorem Properties_init_enumerates:
  assumes "\<forall>(path, intf, prop) \<in> set members.
             \<forall>z f. gp z path intf prop = Inl f \<longrightarrow> caught_bus_error f"
  shows "Properties_init gp b members c = Inr (foldl (read_or_skip gp (p_handler b)) c members)"
  using assms
proof (induction members arbitrary: c)
  case Nil
  show ?case by simp
next
  case (Cons m members)
  obtain path intf pr where m: "m = (path, intf, pr)" by (cases m)
  show ?case
  proof (cases "gp (zone c) path intf pr")
    case (Inl f)
    with Cons.prems m have "caught_bus_error f" by auto
    with Inl m Cons show ?thesis by simp
  next
    case (Inr v)
    with m Cons show ?thesis by simp
  qed
qed

theorem Properties_init_enumerates_witness:
  "Properties_init (\<lambda>z path i q. if path = ''/b'' then Inl DBusError else Inr (length path))
     \<lparr>p_path = [], p_iface = [], p_property = [], p_handler = note_value\<rparr>
     [(''/a'', ''I'', ''P''), (''/b'', ''I'', ''P''), (''/cc'', ''I'', ''P'')]
     \<lparr>zone = [], journal = []\<rparr>
   = Inr \<lparr>zone = [2, 3], journal = []\<rparr>"
  using Properties_init_enumerates [of
      "[(''/a'', ''I'', ''P''), (''/b'', ''I'', ''P''), (''/cc'', ''I'', ''P'')]"
      "\<lambda>z path i q. if path = ''/b'' then Inl DBusError else Inr (length path)"
      "\<lparr>p_path = [], p_iface = [], p_property = [], p_handler = note_value\<rparr>"
      "\<lparr>zone = [], journal = []\<rparr>"]
  by (simp add: note_value_def)

section \<open>Properties: empty filters\<close>

text \<open>
  C7 as the specification states it: empty filters match any message.  The functor built
  by the handler-only constructor is given a message of interface \<open>I\<close> that carries the
  property named by the empty string: the handler is not called.  It is then given a
  message whose interface name is empty and which carries the property \<open>Value\<close>: the
  handler is not called either, and the missing property is logged.
\<close>

theorem Properties_handler_counterexample:
  "Properties_signal (Inr False) (\<lambda>z p i q. Inl OtherException)
     (Properties_handler note_value)
     (Some \<lparr>pc_iface = ''I'', pc_properties = [([], Typed True)]\<rparr>)
     \<lparr>zone = [], journal = []\<rparr>
   = Inr \<lparr>zone = [], journal = []\<rparr> \<and>
   Properties_signal (Inr False) (\<lambda>z p i q. Inl OtherException)
     (Properties_handler note_value)
     (Some \<lparr>pc_iface = [], pc_properties = [(''Value'', Typed True)]\<rparr>)
     \<lparr>zone = [], journal = []\<rparr>
   = Inr \<lparr>zone = [], journal = [ERR ''Unable to find property on interface'' [] [] []]\<rparr>"
  by (simp add: Properties_signal_def Properties_handler_def read_variant_def)

text \<open>
  C7, amended.  For the property functor the empty string is no wildcard in the interface
  and property filters: both are compared like any other string.  The functor built by
  the handler-only constructor ignores every live message whose interface name is not
  empty; for a message whose interface name is empty it looks up the property named by
  the empty string.  The path filter is not compared on live delivery at all: whatever
  it is, empty or not, it changes neither whether the handler is called nor with what.
\<close>

theorem Properties_handler_signal:
  "Properties_signal mm gp (Properties_handler h) (Some m) c =
     (if pc_iface m \<noteq> [] then Inr c
      else case read_properties mm (pc_properties m) of
             Inl f \<Rightarrow> Inl f
           | Inr properties \<Rightarrow>
               (case properties [] of
                  None \<Rightarrow> Inr (c\<lparr>journal := journal c @
                             [ERR ''Unable to find property on interface'' [] [] []]\<rparr>)
                | Some v \<Rightarrow> Inr (c\<lparr>zone := h (zone c) v\<rparr>))) \<and>
   map_sum id zone (Properties_signal mm gp (b\<lparr>p_path := q\<rparr>) (Some m) c) =
     map_sum id zone (Properties_signal mm gp b (Some m) c)"
  by (simp add: Properties_signal_def Properties_handler_def split: sum.split option.split)

theorem Properties_handler_signal_witness:
  "Properties_signal (Inr False) (\<lambda>z p i q. Inl OtherException)
     (Properties_handler note_value)
     (Some \<lparr>pc_iface = ''xyz.Sensor'', pc_properties = [(''Value'', Typed True)]\<rparr>)
     \<lparr>zone = [], journal = []\<rparr>
   = Inr \<lparr>zone = [], journal = []\<rparr> \<and>
   map_sum id zone (Properties_signal (Inr False) (\<lambda>z p i q. Inl OtherException)
     \<lparr>p_path = ''/anywhere'', p_iface = ''I'', p_property = ''Value'', p_handler = note_value\<rparr>
     (Some \<lparr>pc_iface = ''I'', pc_properties = [(''Value'', Typed True)]\<rparr>)
     \<lparr>zone = [], journal = []\<rparr>)
   = Inr [True]"
  using Properties_handler_signal [where mm = "Inr False"
      and gp = "\<lambda>z p i q. Inl OtherException" and h = note_value
      and m = "\<lparr>pc_iface = ''xyz.Sensor'', pc_properties = [(''Value'', Typed True)]\<rparr>"
      and c = "\<lparr>zone = [], journal = []\<rparr>"]
    Properties_handler_signal [where mm = "Inr False"
      and gp = "\<lambda>z p i q. Inl OtherException"
      and b = "\<lparr>p_path = [], p_iface = ''I'', p_property = ''Value'', p_handler = note_value\<rparr>"
      and q = "''/anywhere''"
      and m = "\<lparr>pc_iface = ''I'', pc_properties = [(''Value'', Typed True)]\<rparr>"
      and c = "\<lparr>zone = [], journal = []\<rparr>"]
  by (simp add: Properties_signal_def read_variant_def note_value_def)

section \<open>InterfaceAdded: live delivery\<close>

lemma read_intfProp_entries:
  "read_intfProp mm xs = Inr intfProp \<Longrightarrow>
     intfProp i =
       map_option (\<lambda>kvs k. Option.bind (map_of kvs k) (variant_value mm)) (map_of xs i)"
proof (induction xs arbitrary: intfProp)
  case Nil
  then show ?case by auto
next
  case (Cons x xs)
  obtain i' kvs where x: "x = (i', kvs)" by (cases x)
  from Cons.prems x obtain props m where
    p: "read_properties mm kvs = Inr props" and m: "read_intfProp mm xs = Inr m"
    and ip: "intfProp = m(i' \<mapsto> props)"
    by (auto split: sum.splits)
  from p have "props = (\<lambda>k. Option.bind (map_of kvs k) (variant_value mm))"
    by (auto simp: fun_eq_iff dest: read_properties_entries)
  with Cons.IH [OF m] ip x show ?case by simp
qed

lemma read_intfProp_typed:
  "read_intfProp mm (map (\<lambda>(i, kvs). (i, map (\<lambda>(k, v). (k, Typed v)) kvs)) xs) =
     Inr (\<lambda>i. map_option map_of (map_of xs i))"
  by (induction xs) (auto simp: read_properties_typed fun_eq_iff)

text \<open>
  C8.  On a live InterfacesAdded message the functor does nothing when the announced path
  differs from the filter path, whatever else the message holds: it returns before the
  interfaces are read.  It does nothing on a null message.  When the path matches and the
  read returns the nested mapping \<open>intfProp\<close>, the entry under the filter interface is that
  of the first entry of that name in the message, with the values its properties carry;
  the functor calls the handler with the value under the filter property when the filter
  interface is in the mapping and the filter property is in that entry, and does nothing
  otherwise.  A message whose values all have the expected type is always read, and its
  mapping is the one it carries.
\<close>

theorem InterfaceAdded_signal_live:
  "(ia_op m \<noteq> a_path b \<longrightarrow> InterfaceAdded_signal mm b (Some m) c = Inr c) \<and>
   InterfaceAdded_signal mm b None c = Inr c \<and>
   (ia_op m = a_path b \<and> read_intfProp mm (ia_intfProp m) = Inr intfProp \<longrightarrow>
      intfProp (a_iface b) =
        map_option (\<lambda>kvs k. Option.bind (map_of kvs k) (variant_value mm))
          (map_of (ia_intfProp m) (a_iface b)) \<and>
      InterfaceAdded_signal mm b (Some m) c =
        Inr (case intfProp (a_iface b) of
               None \<Rightarrow> c
             | Some props \<Rightarrow>
                 (case props (a_property b) of
                    None \<Rightarrow> c
                  | Some v \<Rightarrow> c\<lparr>zone := a_handler b (zone c) v\<rparr>))) \<and>
   InterfaceAdded_signal mm b
       (Some \<lparr>ia_op = op, ia_intfProp =
          map (\<lambda>(i, kvs). (i, map (\<lambda>(k, v). (k, Typed v)) kvs)) xs\<rparr>) c =
     Inr (if op = a_path b
          then (case map_of xs (a_iface b) of
                  None \<Rightarrow> c
                | Some kvs \<Rightarrow>
                    (case map_of kvs (a_property b) of
                       None \<Rightarrow> c
                     | Some v \<Rightarrow> c\<lparr>zone := a_handler b (zone c) v\<rparr>))
          else c)"
  by (auto simp: InterfaceAdded_signal_def read_intfProp_typed read_intfProp_entries
      split: option.split)

theorem InterfaceAdded_signal_live_witness:
  "read_intfProp (Inl SdBusError)
     [(''H'', [(''Other'', Typed 1)]), (''I'', [(''Value'', Typed (5::nat))])]
     = Inr [''I'' \<mapsto> [''Value'' \<mapsto> 5], ''H'' \<mapsto> [''Other'' \<mapsto> 1]] \<and>
   InterfaceAdded_signal (Inl SdBusError)
     \<lparr>a_path = ''/s'', a_iface = ''I'', a_property = ''Value'', a_handler = note_value\<rparr>
     (Some \<lparr>ia_op = ''/s'', ia_intfProp =
        [(''H'', [(''Other'', Typed 1)]), (''I'', [(''Value'', Typed (5::nat))])]\<rparr>)
     \<lparr>zone = [], journal = []\<rparr>
   = Inr \<lparr>zone = [5], journal = []\<rparr>"
proof -
  have h: "read_intfProp (Inl SdBusError)
     [(''H'', [(''Other'', Typed 1)]), (''I'', [(''Value'', Typed (5::nat))])]
     = Inr [''I'' \<mapsto> [''Value'' \<mapsto> 5], ''H'' \<mapsto> [''Other'' \<mapsto> 1]]"
    by (simp add: read_variant_def)
  show ?thesis
    using h InterfaceAdded_signal_live [where mm = "Inl SdBusError"
        and m = "\<lparr>ia_op = ''/s'', ia_intfProp =
          [(''H'', [(''Other'', Typed 1)]), (''I'', [(''Value'', Typed (5::nat))])]\<rparr>"
        and intfProp = "[''I'' \<mapsto> [''Value'' \<mapsto> 5], ''H'' \<mapsto> [''Other'' \<mapsto> 1]]"
        and b = "\<lparr>a_path = ''/s'', a_iface = ''I'', a_property = ''Value'', a_handler = note_value\<rparr>"
        and c = "\<lparr>zone = [], journal = []\<rparr>" and op = "[]" and xs = "[]"]
    by (simp add: note_value_def read_variant_def variant_value_def)
qed

section \<open>NameOwner: query mode\<close>






section \<open>The null message\<close>

text \<open>
  C10.  Given a null message the property functor reads the property named by its own
  filter from the zone: on success it calls the handler with the value, on a bus fault it
  does nothing and the fault does not leave it.  The InterfaceAdded and InterfaceRemoved
  functors do nothing on a null message.
\<close>

theorem null_message:
  "(gp (zone c) (p_path b) (p_iface b) (p_property b) = Inr v \<longrightarrow>
      Properties_signal mm gp b None c = Inr (c\<lparr>zone := p_handler b (zone c) v\<rparr>)) \<and>
   (gp (zone c) (p_path b) (p_iface b) (p_property b) = Inl f \<and> caught_bus_error f \<longrightarrow>
      Properties_signal mm gp b None c = Inr c) \<and>
   InterfaceAdded_signal mm a None c = Inr c \<and>
   InterfaceRemoved_signal r None c = Inr c"
  by (simp add: Properties_signal_def InterfaceAdded_signal_def InterfaceRemoved_signal_def)

theorem null_message_witness:
  "Properties_signal (Inl SdBusError)
     (\<lambda>z path i q. if path = ''/s'' then Inr True else Inl DBusError)
     \<lparr>p_path = ''/s'', p_iface = ''I'', p_property = ''Value'', p_handler = note_value\<rparr>
     None \<lparr>zone = [], journal = []\<rparr>
   = Inr \<lparr>zone = [True], journal = []\<rparr> \<and>
   Properties_signal (Inl SdBusError)
     (\<lambda>z path i q. if path = ''/s'' then Inr True else Inl DBusError)
     \<lparr>p_path = ''/t'', p_iface = ''I'', p_property = ''Value'', p_handler = note_value\<rparr>
     None \<lparr>zone = [], journal = []\<rparr>
   = Inr \<lparr>zone = [], journal = []\<rparr>"
  using null_message [of "\<lambda>z path i q. if path = ''/s'' then Inr True else Inl DBusError"
      "\<lparr>zone = [], journal = []\<rparr>"
      "\<lparr>p_path = ''/s'', p_iface = ''I'', p_property = ''Value'', p_handler = note_value\<rparr>"
      True "Inl SdBusError"]
    null_message [of "\<lambda>z path i q. if path = ''/s'' then Inr True else Inl DBusError"
      "\<lparr>zone = [], journal = []\<rparr>"
      "\<lparr>p_path = ''/t'', p_iface = ''I'', p_property = ''Value'', p_handler = note_value\<rparr>"
      _ "Inl SdBusError" DBusError]
  by (simp add: note_value_def)

section \<open>The monitor: checkAlarm\<close>

lemma hasTimer_powerOn_update [simp]: "hasTimer (s\<lparr>powerOn := b\<rparr>) k = hasTimer s k"
  by (simp add: hasTimer_def)

lemma checkAlarm_hasTimer:
  "hasTimer (checkAlarm cfg v k s) k' =
     (if k' = k then v \<and> (powerOn s \<or> hasTimer s k) else hasTimer s k')"
  by (auto simp: checkAlarm_def Let_def hasTimer_def update_conv' split: option.splits)

lemma checkAlarm_powerOn [simp]: "powerOn (checkAlarm cfg v k s) = powerOn s"
  by (simp add: checkAlarm_def Let_def)

lemma checkAlarm_lastValue [simp]:
  "lastValue (checkAlarm cfg v k s) = (lastValue s)(k \<mapsto> v)"
  by (simp add: checkAlarm_def Let_def)

lemma checkAlarm_keys:
  "fst ` set (alarms (checkAlarm cfg v k s)) =
     (if (v \<and> powerOn s \<and> \<not> hasTimer s k) \<or> (\<not> v \<and> hasTimer s k) then insert k (fst ` set (alarms s)) else fst ` set (alarms s))"
  by (auto simp: checkAlarm_def Let_def dom_update)

lemma map_of_findAlarms:
  "map_of (fold (\<lambda>k al. AList.update k None al) keys al) k =
     (if k \<in> set keys then Some None else map_of al k)"
  by (induction keys arbitrary: al) (auto simp: update_conv')

lemma hasTimer_startup [simp]: "hasTimer (startup keys p) k = False"
  by (simp add: startup_def findAlarms_def hasTimer_def map_of_findAlarms)

lemma startup_fields [simp]:
  "powerOn (startup keys p) = p" "lastValue (startup keys p) = Map.empty"
  by (simp_all add: startup_def findAlarms_def)

text \<open>
  C2.  \<open>checkAlarm\<close> has three cases.  With a true value, power on and no timer for the key
  it stores a timer with the delay of the key's class and logs "asserted".  With a false
  value and a timer for the key it removes the timer and logs "cleared".  In every other
  combination the map and the log are unchanged.  The entries of other keys, the power
  state and the shutdown actions are never touched.
\<close>

theorem checkAlarm_cases:
  "(value \<and> powerOn s \<and> \<not> hasTimer s k \<longrightarrow>
      map_of (alarms (checkAlarm cfg value k s)) k =
        Some (Some \<lparr>t_key = k, t_delay = class_delay cfg k\<rparr>) \<and>
      eventLog (checkAlarm cfg value k s) = eventLog s @ [Asserted k]) \<and>
   (\<not> value \<and> hasTimer s k \<longrightarrow>
      map_of (alarms (checkAlarm cfg value k s)) k = Some None \<and>
      eventLog (checkAlarm cfg value k s) = eventLog s @ [Cleared k]) \<and>
   (\<not> (value \<and> powerOn s \<and> \<not> hasTimer s k) \<and> \<not> (\<not> value \<and> hasTimer s k) \<longrightarrow>
      alarms (checkAlarm cfg value k s) = alarms s \<and>
      eventLog (checkAlarm cfg value k s) = eventLog s) \<and>
   (\<forall>k'. k' \<noteq> k \<longrightarrow>
      map_of (alarms (checkAlarm cfg value k s)) k' = map_of (alarms s) k') \<and>
   powerOn (checkAlarm cfg value k s) = powerOn s \<and>
   shutdowns (checkAlarm cfg value k s) = shutdowns s \<and>
   class_delay cfg (path, Soft, d) = soft_delay cfg \<and>
   class_delay cfg (path, Hard, d) = hard_delay cfg"
  by (auto simp: checkAlarm_def Let_def update_conv' class_delay_def)

theorem checkAlarm_cases_witness:
  "map_of (alarms (checkAlarm \<lparr>soft_delay = 900, hard_delay = 23\<rparr> True (''/s'', Hard, High)
      (startup [(''/s'', Hard, High)] True))) (''/s'', Hard, High)
     = Some (Some \<lparr>t_key = (''/s'', Hard, High), t_delay = 23\<rparr>) \<and>
   eventLog (checkAlarm \<lparr>soft_delay = 900, hard_delay = 23\<rparr> True (''/s'', Hard, High)
      (startup [(''/s'', Hard, High)] True)) = [Asserted (''/s'', Hard, High)]"
  using checkAlarm_cases [of True "startup [(''/s'', Hard, High)] True" "(''/s'', Hard, High)"
      "\<lparr>soft_delay = 900, hard_delay = 23\<rparr>" "''/s''" High]
  by (simp add: startup_def findAlarms_def hasTimer_def class_delay_def)

section \<open>The monitor: power off\<close>

lemma map_of_all_None:
  "map_of (map (\<lambda>(k, t). (k, None)) al) k = map_option (\<lambda>t. None) (map_of al k)"
  by (induction al) auto

lemma hasTimer_power_off [simp]:
  "hasTimer (powerStateChanged cfg False rd s) k = False"
  by (simp add: powerStateChanged_def hasTimer_def map_of_all_None split: option.splits)

lemma timerExpired_hasTimer:
  "hasTimer (timerExpired k s) k' = (k' \<noteq> k \<and> hasTimer s k')"
  by (auto simp: timerExpired_def hasTimer_def update_conv' split: option.splits)

lemma timerExpired_other [simp]:
  "powerOn (timerExpired k s) = powerOn s" "lastValue (timerExpired k s) = lastValue s"
  by (simp_all add: timerExpired_def)

lemma dark_deliver: "dark s \<Longrightarrow> keeps_power_off e \<Longrightarrow> dark (deliver cfg s e)"
proof (cases e)
  case (CheckAlarm v k)
  assume "dark s"
  with CheckAlarm show ?thesis by (auto simp: dark_def checkAlarm_hasTimer)
next
  case (PowerStateChanged on rd)
  assume "keeps_power_off e"
  with PowerStateChanged have "\<not> on" by simp
  moreover have "\<not> powerOn (powerStateChanged cfg False rd s)"
    by (simp add: powerStateChanged_def)
  ultimately show ?thesis using PowerStateChanged by (auto simp: dark_def)
next
  case (TimerExpired k)
  assume "dark s"
  with TimerExpired show ?thesis by (auto simp: dark_def timerExpired_hasTimer)
qed

lemma dark_run: "dark s \<Longrightarrow> list_all keeps_power_off evs \<Longrightarrow> dark (run cfg evs s)"
  unfolding run_def by (induction evs arbitrary: s) (simp_all add: dark_deliver)

text \<open>
  C3.  A transition to power off leaves no key with a timer, whatever the alarm values
  are, keeps the keys of the map and adds nothing to the event log.  As long as no event
  turns power back on, whatever else is delivered, no key has a timer.
\<close>

theorem power_off_cancels:
  "\<not> hasTimer (powerStateChanged cfg False rd s) k \<and>
   eventLog (powerStateChanged cfg False rd s) = eventLog s \<and>
   map fst (alarms (powerStateChanged cfg False rd s)) = map fst (alarms s) \<and>
   (list_all keeps_power_off evs \<longrightarrow>
      \<not> hasTimer (run cfg evs (powerStateChanged cfg False rd s)) k)"
proof -
  have "dark (powerStateChanged cfg False rd s)"
    by (simp add: dark_def) (simp add: powerStateChanged_def)
  then have "list_all keeps_power_off evs \<longrightarrow> dark (run cfg evs (powerStateChanged cfg False rd s))"
    by (simp add: dark_run)
  then have "list_all keeps_power_off evs \<longrightarrow>
      \<not> hasTimer (run cfg evs (powerStateChanged cfg False rd s)) k"
    unfolding dark_def by blast
  moreover have "map fst (alarms (powerStateChanged cfg False rd s)) = map fst (alarms s)"
    by (simp add: powerStateChanged_def case_prod_unfold)
  moreover have "eventLog (powerStateChanged cfg False rd s) = eventLog s"
    by (simp add: powerStateChanged_def)
  ultimately show ?thesis by simp
qed

theorem power_off_cancels_witness:
  "hasTimer (run \<lparr>soft_delay = 900, hard_delay = 23\<rparr> [CheckAlarm True (''/s'', Hard, High)]
      (startup [(''/s'', Hard, High)] True)) (''/s'', Hard, High) \<and>
   list_all keeps_power_off [CheckAlarm True (''/s'', Hard, High), TimerExpired (''/s'', Hard, High)] \<and>
   \<not> hasTimer (run \<lparr>soft_delay = 900, hard_delay = 23\<rparr>
        [CheckAlarm True (''/s'', Hard, High), TimerExpired (''/s'', Hard, High)]
        (powerStateChanged \<lparr>soft_delay = 900, hard_delay = 23\<rparr> False (\<lambda>k. None)
          (run \<lparr>soft_delay = 900, hard_delay = 23\<rparr> [CheckAlarm True (''/s'', Hard, High)]
             (startup [(''/s'', Hard, High)] True)))) (''/s'', Hard, High) \<and>
   eventLog (powerStateChanged \<lparr>soft_delay = 900, hard_delay = 23\<rparr> False (\<lambda>k. None)
          (run \<lparr>soft_delay = 900, hard_delay = 23\<rparr> [CheckAlarm True (''/s'', Hard, High)]
             (startup [(''/s'', Hard, High)] True))) = [Asserted (''/s'', Hard, High)]"
proof -
  let ?s = "run \<lparr>soft_delay = 900, hard_delay = 23\<rparr> [CheckAlarm True (''/s'', Hard, High)]
      (startup [(''/s'', Hard, High)] True)"
  have a: "hasTimer ?s (''/s'', Hard, High)"
    by (simp add: run_def startup_def findAlarms_def checkAlarm_def hasTimer_def)
  have l: "eventLog ?s = [Asserted (''/s'', Hard, High)]"
    by (simp add: run_def startup_def findAlarms_def checkAlarm_def hasTimer_def)
  have u: "list_all keeps_power_off [CheckAlarm True (''/s'', Hard, High), TimerExpired (''/s'', Hard, High)]"
    by simp
  from power_off_cancels [of "\<lparr>soft_delay = 900, hard_delay = 23\<rparr>" "\<lambda>k. None" ?s "(''/s'', Hard, High)"
      "[CheckAlarm True (''/s'', Hard, High), TimerExpired (''/s'', Hard, High)]"] a l u
  show ?thesis by simp
qed

section \<open>The monitor: the timer invariant\<close>

lemma safe_checkAlarm: "safe s \<Longrightarrow> safe (checkAlarm cfg v k s)"
  by (auto simp: safe_def checkAlarm_hasTimer)

lemma safe_recheck:
  "safe s \<Longrightarrow> safe (fold (\<lambda>k s. case rd k of Some v \<Rightarrow> checkAlarm cfg v k s | None \<Rightarrow> s) ks s)"
  by (induction ks arbitrary: s) (auto simp: safe_checkAlarm split: option.splits)

lemma safe_deliver: "safe s \<Longrightarrow> safe (deliver cfg s e)"
proof (cases e)
  case (CheckAlarm v k)
  assume "safe s"
  with CheckAlarm show ?thesis by (simp add: safe_checkAlarm)
next
  case (PowerStateChanged on rd)
  assume s: "safe s"
  show ?thesis
  proof (cases on)
    case True
    from s have "safe (s\<lparr>powerOn := True\<rparr>)" by (simp add: safe_def)
    then show ?thesis
      using PowerStateChanged True by (simp add: powerStateChanged_def checkAlarms_def safe_recheck)
  next
    case False
    with PowerStateChanged show ?thesis by (simp add: safe_def)
  qed
next
  case (TimerExpired k)
  assume "safe s"
  with TimerExpired show ?thesis by (auto simp: safe_def timerExpired_hasTimer)
qed

lemma safe_run: "safe s \<Longrightarrow> safe (run cfg evs s)"
  unfolding run_def by (induction evs arbitrary: s) (simp_all add: safe_deliver)

lemma safe_startup: "safe (startup keys p)"
  by (simp add: safe_def)

lemma exact_startup: "exact (startup keys p)"
  by (simp add: exact_def)


lemma exact_checkAlarm:
  assumes "safe s" and "exact s"
  shows "exact (checkAlarm cfg v k s)"
  unfolding exact_def
proof
  fix k'
  assume k': "k' \<in> fst ` set (alarms (checkAlarm cfg v k s))"
  show "hasTimer (checkAlarm cfg v k s) k' \<longleftrightarrow>
          lastValue (checkAlarm cfg v k s) k' = Some True \<and> powerOn (checkAlarm cfg v k s)"
  proof (cases "k' = k")
    case True
    from assms(1) have "hasTimer s k \<longrightarrow> powerOn s" unfolding safe_def by blast
    with True show ?thesis by (auto simp: checkAlarm_hasTimer)
  next
    case False
    with k' have "k' \<in> fst ` set (alarms s)"
      by (simp add: checkAlarm_keys split: if_splits)
    with assms(2) have "hasTimer s k' \<longleftrightarrow> lastValue s k' = Some True \<and> powerOn s"
      unfolding exact_def by blast
    with False show ?thesis by (simp add: checkAlarm_hasTimer)
  qed
qed

lemma recheck_powerOn [simp]:
  "powerOn (fold (\<lambda>k s. case rd k of Some v \<Rightarrow> checkAlarm cfg v k s | None \<Rightarrow> s) ks s) = powerOn s"
  by (induction ks arbitrary: s) (simp_all split: option.splits)

lemma recheck_keys:
  "fst ` set (alarms (fold (\<lambda>k s. case rd k of Some v \<Rightarrow> checkAlarm cfg v k s | None \<Rightarrow> s) ks s))
     \<subseteq> fst ` set (alarms s) \<union> set ks"
proof (induction ks arbitrary: s)
  case Nil
  show ?case by simp
next
  case (Cons k ks)
  show ?case
  proof (cases "rd k")
    case None
    with Cons [of s] show ?thesis by auto
  next
    case (Some v)
    have "fst ` set (alarms (checkAlarm cfg v k s)) \<subseteq> insert k (fst ` set (alarms s))"
      by (auto simp: checkAlarm_keys split: if_splits)
    with Cons [of "checkAlarm cfg v k s"] Some show ?thesis by auto
  qed
qed

lemma recheck_settles:
  assumes "powerOn s" and "\<forall>k. rd k \<noteq> None"
    and "\<forall>k \<in> A. hasTimer s k \<longleftrightarrow> lastValue s k = Some True"
  shows "\<forall>k \<in> A \<union> set ks.
           hasTimer (fold (\<lambda>k s. case rd k of Some v \<Rightarrow> checkAlarm cfg v k s | None \<Rightarrow> s) ks s) k
             \<longleftrightarrow> lastValue (fold (\<lambda>k s. case rd k of Some v \<Rightarrow> checkAlarm cfg v k s | None \<Rightarrow> s) ks s) k = Some True"
  using assms(1,3)
proof (induction ks arbitrary: s A)
  case Nil
  then show ?case by simp
next
  case (Cons k ks)
  from assms(2) have "rd k \<noteq> None" by blast
  then obtain v where v: "rd k = Some v" by auto
  let ?s = "checkAlarm cfg v k s"
  have p: "powerOn ?s" using Cons.prems(1) by simp
  have q: "\<forall>k' \<in> insert k A. hasTimer ?s k' \<longleftrightarrow> lastValue ?s k' = Some True"
    using Cons.prems by (auto simp: checkAlarm_hasTimer)
  from Cons.IH [OF p q] v show ?case by simp
qed

lemma exact_power_on:
  assumes "\<forall>k. rd k \<noteq> None"
  shows "exact (powerStateChanged cfg True rd s)"
proof -
  define s0 where "s0 = s\<lparr>powerOn := True\<rparr>"
  define s1 where
    "s1 = fold (\<lambda>k s. case rd k of Some v \<Rightarrow> checkAlarm cfg v k s | None \<Rightarrow> s) (map fst (alarms s0)) s0"
  have res: "powerStateChanged cfg True rd s = s1"
    by (simp add: powerStateChanged_def checkAlarms_def s0_def s1_def)
  have "fst ` set (alarms s1) \<subseteq> fst ` set (alarms s0) \<union> set (map fst (alarms s0))"
    unfolding s1_def by (rule recheck_keys)
  then have keys: "fst ` set (alarms s1) \<subseteq> set (map fst (alarms s0))"
    by simp
  have on: "powerOn s0" by (simp add: s0_def)
  have "\<forall>k \<in> {} \<union> set (map fst (alarms s0)). hasTimer s1 k \<longleftrightarrow> lastValue s1 k = Some True"
    unfolding s1_def using on assms by (rule recheck_settles) simp
  with keys have "\<forall>k \<in> fst ` set (alarms s1). hasTimer s1 k \<longleftrightarrow> lastValue s1 k = Some True"
    by blast
  moreover have "powerOn s1" using on by (simp add: s1_def)
  ultimately show ?thesis unfolding res exact_def by blast
qed

lemma exact_deliver:
  assumes "safe s" and "exact s" and "undisturbed e"
  shows "exact (deliver cfg s e)"
proof (cases e)
  case (CheckAlarm v k)
  with assms show ?thesis by (simp add: exact_checkAlarm)
next
  case (PowerStateChanged on rd)
  show ?thesis
  proof (cases on)
    case True
    with PowerStateChanged assms(3) show ?thesis by (simp add: exact_power_on)
  next
    case False
    have "\<not> powerOn (powerStateChanged cfg False rd s)" by (simp add: powerStateChanged_def)
    with PowerStateChanged False show ?thesis by (simp add: exact_def)
  qed
next
  case (TimerExpired k)
  with assms(3) show ?thesis by simp
qed

lemma exact_run:
  "safe s \<Longrightarrow> exact s \<Longrightarrow> list_all undisturbed evs \<Longrightarrow> exact (run cfg evs s)"
  unfolding run_def
  by (induction evs arbitrary: s) (simp_all add: safe_deliver exact_deliver)

lemma powerOn_power_off [simp]: "powerOn (powerStateChanged cfg False rd s) = False"
  by (simp add: powerStateChanged_def)

lemma lastValue_power_off [simp]: "lastValue (powerStateChanged cfg False rd s) = lastValue s"
  by (simp add: powerStateChanged_def)

lemma recheck_untouched:
  assumes "k \<notin> set ks \<or> rd k = None"
  shows "hasTimer (fold (\<lambda>k s. case rd k of Some v \<Rightarrow> checkAlarm cfg v k s | None \<Rightarrow> s) ks s) k = hasTimer s k \<and>
         lastValue (fold (\<lambda>k s. case rd k of Some v \<Rightarrow> checkAlarm cfg v k s | None \<Rightarrow> s) ks s) k = lastValue s k"
  using assms
proof (induction ks arbitrary: s)
  case Nil
  show ?case by simp
next
  case (Cons k' ks)
  show ?case
  proof (cases "rd k'")
    case None
    with Cons show ?thesis by auto
  next
    case (Some v)
    with Cons.prems have ne: "k' \<noteq> k" by auto
    from Cons.prems have "k \<notin> set ks \<or> rd k = None" by auto
    from Cons.IH [OF this, of "checkAlarm cfg v k' s"] Some ne
    show ?thesis by (simp add: checkAlarm_hasTimer)
  qed
qed

lemma recheck_settles_key:
  assumes "powerOn s" and "rd k \<noteq> None"
    and "(hasTimer s k \<longleftrightarrow> lastValue s k = Some True) \<or> k \<in> set ks"
  shows "hasTimer (fold (\<lambda>k s. case rd k of Some v \<Rightarrow> checkAlarm cfg v k s | None \<Rightarrow> s) ks s) k
           \<longleftrightarrow> lastValue (fold (\<lambda>k s. case rd k of Some v \<Rightarrow> checkAlarm cfg v k s | None \<Rightarrow> s) ks s) k = Some True"
  using assms(1,3)
proof (induction ks arbitrary: s)
  case Nil
  then show ?case by simp
next
  case (Cons k' ks)
  show ?case
  proof (cases "rd k'")
    case None
    with assms(2) have "k' \<noteq> k" by auto
    with Cons.prems have "(hasTimer s k \<longleftrightarrow> lastValue s k = Some True) \<or> k \<in> set ks" by auto
    from Cons.IH [OF Cons.prems(1) this] None show ?thesis by simp
  next
    case (Some v)
    let ?s = "checkAlarm cfg v k' s"
    have p: "powerOn ?s" using Cons.prems(1) by simp
    have q: "(hasTimer ?s k \<longleftrightarrow> lastValue ?s k = Some True) \<or> k \<in> set ks"
      using Cons.prems by (auto simp: checkAlarm_hasTimer)
    from Cons.IH [OF p q] Some show ?thesis by simp
  qed
qed

lemma agrees_power_on:
  assumes "safe s"
  shows "agrees (powerStateChanged cfg True rd s) k \<longleftrightarrow>
           (if rd k \<noteq> None \<and> k \<in> fst ` set (alarms s) then True
            else if \<not> hasTimer s k \<and> lastValue s k = Some True then False
            else agrees s k)"
proof -
  define s0 where "s0 = s\<lparr>powerOn := True\<rparr>"
  define s1 where
    "s1 = fold (\<lambda>k s. case rd k of Some v \<Rightarrow> checkAlarm cfg v k s | None \<Rightarrow> s) (map fst (alarms s0)) s0"
  have res: "powerStateChanged cfg True rd s = s1"
    by (simp add: powerStateChanged_def checkAlarms_def s0_def s1_def)
  have on0: "powerOn s0" by (simp add: s0_def)
  have on1: "powerOn s1" using on0 by (simp add: s1_def)
  from assms have timer: "hasTimer s k \<longrightarrow> lastValue s k = Some True \<and> powerOn s"
    unfolding safe_def by blast
  show ?thesis
  proof (cases "rd k \<noteq> None \<and> k \<in> fst ` set (alarms s)")
    case True
    then have "k \<in> set (map fst (alarms s0))" by (simp add: s0_def)
    then have "hasTimer s1 k \<longleftrightarrow> lastValue s1 k = Some True"
      unfolding s1_def using on0 True by (intro recheck_settles_key) auto
    with on1 True show ?thesis by (simp add: res agrees_def)
  next
    case False
    then have "k \<notin> set (map fst (alarms s0)) \<or> rd k = None" by (auto simp: s0_def)
    then have "hasTimer s1 k = hasTimer s0 k \<and> lastValue s1 k = lastValue s0 k"
      unfolding s1_def by (rule recheck_untouched)
    then have same: "hasTimer s1 k = hasTimer s k" "lastValue s1 k = lastValue s k"
      by (simp_all add: s0_def)
    from False same on1 timer show ?thesis
      unfolding res agrees_def by auto
  qed
qed

lemma agrees_deliver:
  assumes "safe s"
  shows "agrees (deliver cfg s e) k \<longleftrightarrow>
           (if settles s e k then True else if unsettles s e k then False else agrees s k)"
proof (cases e)
  case (CheckAlarm v k')
  from assms have "hasTimer s k \<longrightarrow> powerOn s" unfolding safe_def by blast
  with CheckAlarm show ?thesis by (auto simp: agrees_def checkAlarm_hasTimer)
next
  case (PowerStateChanged on rd)
  show ?thesis
  proof (cases on)
    case True
    with PowerStateChanged agrees_power_on [OF assms, of cfg rd k] show ?thesis by auto
  next
    case False
    with PowerStateChanged show ?thesis by (simp add: agrees_def)
  qed
next
  case (TimerExpired k')
  from assms have "hasTimer s k \<longrightarrow> lastValue s k = Some True \<and> powerOn s"
    unfolding safe_def by blast
  with TimerExpired show ?thesis by (auto simp: agrees_def timerExpired_hasTimer)
qed

lemma agrees_run:
  "safe s \<Longrightarrow> agrees (run cfg evs s) k \<longleftrightarrow> settled cfg k evs s (agrees s k)"
proof (induction evs arbitrary: s)
  case Nil
  show ?case by (simp add: run_def)
next
  case (Cons e evs)
  from Cons.prems have "safe (deliver cfg s e)" by (rule safe_deliver)
  from Cons.IH [OF this] have
    "agrees (run cfg evs (deliver cfg s e)) k \<longleftrightarrow> settled cfg k evs (deliver cfg s e) (agrees (deliver cfg s e) k)" .
  with agrees_deliver [OF Cons.prems, of cfg e k] show ?case
    by (simp add: run_def)
qed

lemma run_snoc: "run cfg (evs @ [e]) s = deliver cfg (run cfg evs s) e"
  by (simp add: run_def)

lemma agrees_startup: "agrees (startup keys p) k"
  by (simp add: agrees_def)

lemma timerExpired_keys: "fst ` set (alarms (timerExpired k s)) = fst ` set (alarms s)"
proof (cases "hasTimer s k")
  case True
  then have "k \<in> fst ` set (alarms s)"
    by (auto simp: hasTimer_def dest: map_of_SomeD intro: rev_image_eqI split: option.splits)
  with True show ?thesis by (auto simp: timerExpired_def dom_update)
next
  case False
  then show ?thesis by (simp add: timerExpired_def)
qed

lemma power_on_keys:
  "fst ` set (alarms (powerStateChanged cfg True rd s)) \<subseteq> fst ` set (alarms s)"
proof -
  have "fst ` set (alarms (fold (\<lambda>k s. case rd k of Some v \<Rightarrow> checkAlarm cfg v k s | None \<Rightarrow> s)
            (map fst (alarms (s\<lparr>powerOn := True\<rparr>))) (s\<lparr>powerOn := True\<rparr>)))
        \<subseteq> fst ` set (alarms (s\<lparr>powerOn := True\<rparr>)) \<union> set (map fst (alarms (s\<lparr>powerOn := True\<rparr>)))"
    by (rule recheck_keys)
  then show ?thesis by (simp add: powerStateChanged_def checkAlarms_def)
qed

lemma steady_deliver:
  assumes "safe s" and "b \<longrightarrow> k \<in> fst ` set (alarms s) \<longrightarrow> agrees s k"
    and "steady_step k b e" and "k \<in> fst ` set (alarms (deliver cfg s e))"
  shows "agrees (deliver cfg s e) k"
proof (cases e)
  case (CheckAlarm v k')
  show ?thesis
  proof (cases "k' = k")
    case True
    with CheckAlarm agrees_deliver [OF assms(1), of cfg e k] show ?thesis by simp
  next
    case False
    with CheckAlarm assms(4) have "k \<in> fst ` set (alarms s)"
      by (auto simp: checkAlarm_keys split: if_splits)
    with CheckAlarm False assms(2,3) have "agrees s k" by simp
    with CheckAlarm False agrees_deliver [OF assms(1), of cfg e k] show ?thesis by simp
  qed
next
  case (PowerStateChanged on rd)
  show ?thesis
  proof (cases on)
    case False
    with PowerStateChanged agrees_deliver [OF assms(1), of cfg e k] show ?thesis by simp
  next
    case True
    with PowerStateChanged assms(3) have r: "rd k \<noteq> None" by simp
    from True PowerStateChanged assms(4) power_on_keys [of cfg rd s]
    have "k \<in> fst ` set (alarms s)" by auto
    with r True PowerStateChanged agrees_deliver [OF assms(1), of cfg e k] show ?thesis by simp
  qed
next
  case (TimerExpired k')
  with assms(3) have ne: "k' \<noteq> k" and b: b by simp_all
  from TimerExpired assms(4) have "k \<in> fst ` set (alarms s)" by (simp add: timerExpired_keys)
  with b assms(2) have "agrees s k" by simp
  with TimerExpired ne agrees_deliver [OF assms(1), of cfg e k] show ?thesis by simp
qed

lemma steady_run:
  assumes "safe s" and "b \<longrightarrow> k \<in> fst ` set (alarms s) \<longrightarrow> agrees s k"
    and "foldl (steady_step k) b evs" and "k \<in> fst ` set (alarms (run cfg evs s))"
  shows "agrees (run cfg evs s) k"
  using assms
proof (induction evs arbitrary: s b)
  case Nil
  then show ?case by (simp add: run_def)
next
  case (Cons e evs)
  have s: "safe (deliver cfg s e)" using Cons.prems(1) by (rule safe_deliver)
  have g: "steady_step k b e \<longrightarrow> k \<in> fst ` set (alarms (deliver cfg s e)) \<longrightarrow>
             agrees (deliver cfg s e) k"
    using steady_deliver [OF Cons.prems(1,2)] by blast
  from Cons.prems(3) have f: "foldl (steady_step k) (steady_step k b e) evs" by simp
  from Cons.prems(4) have m: "k \<in> fst ` set (alarms (run cfg evs (deliver cfg s e)))"
    by (simp add: run_def)
  from Cons.IH [OF s g f m] show ?case by (simp add: run_def)
qed

lemma steady_startup:
  "k \<in> fst ` set (alarms (run cfg evs (startup keys p))) \<and> steady k evs \<longrightarrow>
     agrees (run cfg evs (startup keys p)) k"
  using steady_run [OF safe_startup, of True k keys p evs cfg]
  by (simp add: agrees_startup steady_def)

text \<open>
  C1 as the specification states it: for a key of the map, a timer is present if and only
  if the last known value is tripped and power is on.  First run: after startup with
  power on the alarm trips and its timer fires; the expiry callback removes the timer,
  while the last known value is still tripped and power is still on.  Second run: the
  alarm trips with power off, then power comes on and the re-read of the key fails; the
  key is skipped and has no timer, while its last known value is tripped and power is on.
\<close>

theorem timer_invariant_counterexample:
  "(''/s'', Hard, High) \<in> fst ` set (alarms (run \<lparr>soft_delay = 900, hard_delay = 23\<rparr>
       [CheckAlarm True (''/s'', Hard, High), TimerExpired (''/s'', Hard, High)]
       (startup [(''/s'', Hard, High)] True))) \<and>
   \<not> (hasTimer (run \<lparr>soft_delay = 900, hard_delay = 23\<rparr>
       [CheckAlarm True (''/s'', Hard, High), TimerExpired (''/s'', Hard, High)]
       (startup [(''/s'', Hard, High)] True)) (''/s'', Hard, High) \<longleftrightarrow>
     lastValue (run \<lparr>soft_delay = 900, hard_delay = 23\<rparr>
       [CheckAlarm True (''/s'', Hard, High), TimerExpired (''/s'', Hard, High)]
       (startup [(''/s'', Hard, High)] True)) (''/s'', Hard, High) = Some True \<and>
     powerOn (run \<lparr>soft_delay = 900, hard_delay = 23\<rparr>
       [CheckAlarm True (''/s'', Hard, High), TimerExpired (''/s'', Hard, High)]
       (startup [(''/s'', Hard, High)] True))) \<and>
   (''/s'', Hard, High) \<in> fst ` set (alarms (run \<lparr>soft_delay = 900, hard_delay = 23\<rparr>
       [CheckAlarm True (''/s'', Hard, High), PowerStateChanged True (\<lambda>k. None)]
       (startup [(''/s'', Hard, High)] False))) \<and>
   \<not> (hasTimer (run \<lparr>soft_delay = 900, hard_delay = 23\<rparr>
       [CheckAlarm True (''/s'', Hard, High), PowerStateChanged True (\<lambda>k. None)]
       (startup [(''/s'', Hard, High)] False)) (''/s'', Hard, High) \<longleftrightarrow>
     lastValue (run \<lparr>soft_delay = 900, hard_delay = 23\<rparr>
       [CheckAlarm True (''/s'', Hard, High), PowerStateChanged True (\<lambda>k. None)]
       (startup [(''/s'', Hard, High)] False)) (''/s'', Hard, High) = Some True \<and>
     powerOn (run \<lparr>soft_delay = 900, hard_delay = 23\<rparr>
       [CheckAlarm True (''/s'', Hard, High), PowerStateChanged True (\<lambda>k. None)]
       (startup [(''/s'', Hard, High)] False)))"
  by (simp add: run_def startup_def findAlarms_def checkAlarm_def checkAlarms_def
      powerStateChanged_def timerExpired_def hasTimer_def)

text \<open>
  C1, amended.  At every point reached from startup by \<open>checkAlarm\<close> calls, power
  transitions and timer expiries, and for every key: if a timer is present then the last
  known value is tripped and power is on.  The converse holds exactly while the key is
  settled.  A key stops being settled only when its running timer fires, or when power
  comes on without the key being re-read (its read fails, or it is not in the map) while
  its last known value is tripped; each of the two always leaves the key without a timer although it is tripped
  and power is on.  The key is settled again by the next \<open>checkAlarm\<close> call for it, the
  next power-off, or the next power-on that re-reads it.  In particular the "if and only
  if" holds for a key of the map whenever, since the last \<open>checkAlarm\<close> call for it,
  power-off or power-on reading it, its timer has not fired and no power-on has failed to
  read it; so it holds for every key of the map after any sequence in which no timer
  fired and every re-read succeeded.
\<close>

theorem timer_invariant:
  "(hasTimer (run cfg evs (startup keys p)) k \<longrightarrow>
      lastValue (run cfg evs (startup keys p)) k = Some True \<and>
      powerOn (run cfg evs (startup keys p))) \<and>
   (agrees (run cfg evs (startup keys p)) k \<longleftrightarrow> settled cfg k evs (startup keys p) True) \<and>
   (k \<in> fst ` set (alarms (run cfg evs (startup keys p))) \<and> list_all undisturbed evs \<longrightarrow>
      agrees (run cfg evs (startup keys p)) k) \<and>
   (k \<in> fst ` set (alarms (run cfg evs (startup keys p))) \<and> steady k evs \<longrightarrow>
      agrees (run cfg evs (startup keys p)) k) \<and>
   (hasTimer (run cfg evs (startup keys p)) k \<longrightarrow>
      \<not> agrees (run cfg (evs @ [TimerExpired k]) (startup keys p)) k) \<and>
   (\<not> powerOn (run cfg evs (startup keys p)) \<and>
    lastValue (run cfg evs (startup keys p)) k = Some True \<and> rd k = None \<longrightarrow>
      \<not> agrees (run cfg (evs @ [PowerStateChanged True rd]) (startup keys p)) k)"
proof -
  let ?s = "run cfg evs (startup keys p)"
  have s: "safe ?s" by (rule safe_run) (rule safe_startup)
  then have a: "hasTimer ?s k \<longrightarrow> lastValue ?s k = Some True \<and> powerOn ?s"
    unfolding safe_def by blast
  have b: "agrees ?s k \<longleftrightarrow> settled cfg k evs (startup keys p) True"
    using agrees_run [OF safe_startup, of cfg evs keys p k] by (simp add: agrees_startup)
  have c: "k \<in> fst ` set (alarms ?s) \<and> list_all undisturbed evs \<longrightarrow> agrees ?s k"
  proof
    assume h: "k \<in> fst ` set (alarms ?s) \<and> list_all undisturbed evs"
    then have "exact ?s" by (intro exact_run safe_startup exact_startup) simp
    with h show "agrees ?s k" unfolding exact_def agrees_def by blast
  qed
  have d: "hasTimer ?s k \<longrightarrow> \<not> agrees (run cfg (evs @ [TimerExpired k]) (startup keys p)) k"
    using agrees_deliver [OF s, of cfg "TimerExpired k" k] by (simp add: run_snoc)
  have e: "\<not> powerOn ?s \<and> lastValue ?s k = Some True \<and> rd k = None \<longrightarrow>
      \<not> agrees (run cfg (evs @ [PowerStateChanged True rd]) (startup keys p)) k"
    using agrees_deliver [OF s, of cfg "PowerStateChanged True rd" k] a by (auto simp: run_snoc)
  note f = steady_startup [of k cfg evs keys p]
  from a b c d e f show ?thesis by blast
qed

theorem timer_invariant_witness:
  "settled \<lparr>soft_delay = 900, hard_delay = 23\<rparr> (''/s'', Soft, Low)
       [CheckAlarm True (''/s'', Soft, Low), TimerExpired (''/s'', Soft, Low),
        PowerStateChanged False (\<lambda>k. None), PowerStateChanged True (\<lambda>k. Some True)]
       (startup [(''/s'', Soft, Low)] True) True \<and>
   hasTimer (run \<lparr>soft_delay = 900, hard_delay = 23\<rparr>
       [CheckAlarm True (''/s'', Soft, Low), TimerExpired (''/s'', Soft, Low),
        PowerStateChanged False (\<lambda>k. None), PowerStateChanged True (\<lambda>k. Some True)]
       (startup [(''/s'', Soft, Low)] True)) (''/s'', Soft, Low) \<and>
   \<not> settled \<lparr>soft_delay = 900, hard_delay = 23\<rparr> (''/s'', Soft, Low)
       [CheckAlarm True (''/s'', Soft, Low), TimerExpired (''/s'', Soft, Low)]
       (startup [(''/s'', Soft, Low)] True) True \<and>
   \<not> hasTimer (run \<lparr>soft_delay = 900, hard_delay = 23\<rparr>
       [CheckAlarm True (''/s'', Soft, Low), TimerExpired (''/s'', Soft, Low)]
       (startup [(''/s'', Soft, Low)] True)) (''/s'', Soft, Low)"
proof -
  let ?k = "(''/s'', Soft, Low)"
  let ?cfg = "\<lparr>soft_delay = 900, hard_delay = 23\<rparr>"
  let ?evs = "[CheckAlarm True ?k, TimerExpired ?k,
        PowerStateChanged False (\<lambda>k. None), PowerStateChanged True (\<lambda>k. Some True)]"
  let ?evs' = "[CheckAlarm True ?k, TimerExpired ?k]"
  let ?s = "run ?cfg ?evs (startup [?k] True)"
  let ?s' = "run ?cfg ?evs' (startup [?k] True)"
  have st: "settled ?cfg ?k ?evs (startup [?k] True) True"
    by (simp add: startup_def findAlarms_def checkAlarm_def checkAlarms_def
        powerStateChanged_def timerExpired_def hasTimer_def)
  have st': "\<not> settled ?cfg ?k ?evs' (startup [?k] True) True"
    by (simp add: startup_def findAlarms_def checkAlarm_def timerExpired_def hasTimer_def)
  have v: "lastValue ?s ?k = Some True \<and> powerOn ?s"
    by (simp add: run_def startup_def findAlarms_def checkAlarm_def checkAlarms_def
        powerStateChanged_def timerExpired_def hasTimer_def)
  have v': "lastValue ?s' ?k = Some True \<and> powerOn ?s'"
    by (simp add: run_def startup_def findAlarms_def checkAlarm_def timerExpired_def hasTimer_def)
  from timer_invariant [of ?cfg ?evs "[?k]" True ?k] st v have "hasTimer ?s ?k"
    unfolding agrees_def by blast
  moreover from timer_invariant [of ?cfg ?evs' "[?k]" True ?k] st' v' have "\<not> hasTimer ?s' ?k"
    unfolding agrees_def by blast
  ultimately show ?thesis using st st' by blast
qed

end
